theory Spec2Isabelle
  imports Main "HOL-Library.Word"
begin

section \<open>The MySQL migration backend of storage/migration/mysql/mysql.go\<close>

text \<open>
  The package keeps a process-wide connection configuration, creates a migration
  session (\<open>Configuration.New\<close>) and implements the backend contract on the tracking
  table \<open>migration\<close> (\<open>TableExist\<close>, \<open>CreateTable\<close>, \<open>Status\<close>, \<open>RecordUp\<close>,
  \<open>RecordDown\<close>). Every method talks to the server through \<open>t.sql\<close>; here the server
  is an explicit state that each call takes and returns.
\<close>

subsection \<open>Errors\<close>

text \<open>
  Go's \<open>error\<close> values that reach this package: the sentinel \<open>sql.ErrNoRows\<close> of
  database/sql, an error reported by the MySQL server (with its error number), and an
  error of the driver or the connection (with its message). A nil error is \<open>None\<close>.
\<close>

datatype error = ErrNoRows | MySQLError nat | DriverError string

definition ER_TABLE_EXISTS_ERROR :: nat where "ER_TABLE_EXISTS_ERROR = 1050"
definition ER_DUP_ENTRY :: nat where "ER_DUP_ENTRY = 1062"
definition ER_NO_SUCH_TABLE :: nat where "ER_NO_SUCH_TABLE = 1146"
definition ER_AUTOINC_READ_FAILED :: nat where "ER_AUTOINC_READ_FAILED = 1467"

subsection \<open>The configuration record\<close>

text \<open>
  Modelled from the spec: the type \<open>database.Info\<close> is declared in the driver package
  storage/driver/mysql. The fields are the connection parameters the specification
  lists (host, credentials, database name, dialect parameters, migration-folder path);
  mysql.go itself reads \<open>MigrationFolder\<close> and \<open>Database\<close> and writes \<open>Parameter\<close>. All
  of them are strings, so a struct copy shares nothing with its original.
\<close>

record database_Info =
  Username :: string
  Password :: string
  Database :: string
  Hostname :: string
  Parameter :: string
  MigrationFolder :: string

text \<open>The zero value \<open>database.Info{}\<close>.\<close>

definition Info_zero :: database_Info where
  "Info_zero = \<lparr>Username = [], Password = [], Database = [], Hostname = [],
     Parameter = [], MigrationFolder = []\<rparr>"

text \<open>\<open>type Configuration struct { database.Info }\<close>\<close>

record Configuration =
  Info :: database_Info

subsection \<open>The tracking table on the server\<close>

text \<open>
  The table that \<open>CreateTable\<close> declares: \<open>id INT UNSIGNED NOT NULL AUTO_INCREMENT\<close>,
  \<open>name VARCHAR(191) NOT NULL\<close>, \<open>created_at TIMESTAMP DEFAULT CURRENT_TIMESTAMP\<close>,
  \<open>UNIQUE KEY (name)\<close>, \<open>PRIMARY KEY (id)\<close>. A table is its rows in storage order
  and its AUTO_INCREMENT counter, the identifier the next insert receives.
\<close>

record row =
  row_id :: "32 word"
  row_name :: string
  row_created_at :: nat

record table =
  rows :: "row list"
  auto_increment :: nat

text \<open>
  The statements mysql.go sends, one constructor for each format string
  (\<open>migrationTable = "migration"\<close> is the only table they name):
  \<^item> \<open>SelectOne\<close>: \<open>SELECT 1 FROM migration LIMIT 1;\<close>
  \<^item> \<open>CreateMigrationTable\<close>: \<open>CREATE TABLE migration (...);\<close>
  \<^item> \<open>SelectLatest\<close>: \<open>SELECT * FROM migration ORDER BY id DESC LIMIT 1;\<close>
  \<^item> \<open>InsertName n\<close>: \<open>INSERT INTO migration (name) VALUES (?);\<close> with \<open>n\<close>
  \<^item> \<open>DeleteName n\<close>: \<open>DELETE FROM migration WHERE name = ? LIMIT 1;\<close> with \<open>n\<close>
  \<^item> \<open>AlterAutoIncrement v\<close>: \<open>ALTER TABLE migration AUTO_INCREMENT = v;\<close>
\<close>

datatype stmt =
    SelectOne
  | CreateMigrationTable
  | SelectLatest
  | InsertName string
  | DeleteName string
  | AlterAutoIncrement "32 word"

text \<open>
  The server as one connection sees it: the tracking table (\<open>None\<close> while it does not
  exist), the server's clock, the statements the server has received (its general query
  log, oldest first), and what the connection will do to the coming calls: the head of
  \<open>faults\<close> is for the next call, \<open>Some m\<close> makes the call fail in the driver with message
  \<open>m\<close> before the statement reaches the server, \<open>None\<close> (or an empty list) lets it through.
\<close>

record db =
  tracking :: "table option"
  now :: nat
  general_log :: "stmt list"
  faults :: "string option list"

text \<open>The largest identifier in the table, 0 for no rows.\<close>

definition max_id :: "row list \<Rightarrow> nat" where
  "max_id rs = foldr (\<lambda>r m. max (unat (row_id r)) m) rs 0"

text \<open>
  \<open>ORDER BY id DESC LIMIT 1\<close>: the row with the largest identifier (identifiers are
  the primary key, so there is one; among equal ones the model takes the first).
\<close>

fun latest :: "row list \<Rightarrow> row option" where
  "latest [] = None"
| "latest (r # rs) =
     (case latest rs of
        None \<Rightarrow> Some r
      | Some m \<Rightarrow> if row_id m \<le> row_id r then Some r else Some m)"

text \<open>\<open>DELETE ... WHERE name = ? LIMIT 1\<close>: at most one matching row goes.\<close>

fun delete_name :: "string \<Rightarrow> row list \<Rightarrow> row list" where
  "delete_name n [] = []"
| "delete_name n (r # rs) = (if row_name r = n then rs else r # delete_name n rs)"

text \<open>
  What the server does with a statement that \<open>Exec\<close> sends. A statement on a missing
  table fails with error 1146. \<open>INSERT\<close> takes the counter as the new identifier and
  moves the counter on, also when the unique key on \<open>name\<close> then rejects the row; the
  identifier has to fit the column. \<open>ALTER TABLE ... AUTO_INCREMENT = v\<close> follows the
  MySQL reference manual: the counter cannot be set to a value that is less than or equal
  to the largest identifier in the column, such a value gives the largest identifier
  plus one. Names are taken to fit the column's 191 characters.
\<close>

fun run :: "stmt \<Rightarrow> nat \<Rightarrow> table option \<Rightarrow> error option \<times> table option" where
  "run CreateMigrationTable clock None = (None, Some \<lparr>rows = [], auto_increment = 1\<rparr>)"
| "run CreateMigrationTable clock (Some t) = (Some (MySQLError ER_TABLE_EXISTS_ERROR), Some t)"
| "run s clock None = (Some (MySQLError ER_NO_SUCH_TABLE), None)"
| "run SelectOne clock (Some t) = (None, Some t)"
| "run SelectLatest clock (Some t) = (None, Some t)"
| "run (InsertName n) clock (Some t) =
     (let c = auto_increment t in
      if 2 ^ 32 \<le> c then (Some (MySQLError ER_AUTOINC_READ_FAILED), Some t)
      else if n \<in> row_name ` set (rows t) \<or> word_of_nat c \<in> row_id ` set (rows t)
        then (Some (MySQLError ER_DUP_ENTRY), Some (t\<lparr>auto_increment := c + 1\<rparr>))
      else (None, Some \<lparr>rows = rows t @ [\<lparr>row_id = word_of_nat c, row_name = n,
                                          row_created_at = clock\<rparr>],
                        auto_increment = c + 1\<rparr>))"
| "run (DeleteName n) clock (Some t) = (None, Some (t\<lparr>rows := delete_name n (rows t)\<rparr>))"
| "run (AlterAutoIncrement v) clock (Some t) =
     (None, Some (t\<lparr>auto_increment := max (unat v) (max_id (rows t) + 1)\<rparr>))"

text \<open>The next call's fault, and the connection after the call.\<close>

definition next_fault :: "db \<Rightarrow> string option" where
  "next_fault d = (case faults d of [] \<Rightarrow> None | f # fs \<Rightarrow> f)"

definition after_call :: "db \<Rightarrow> db" where
  "after_call d = d\<lparr>faults := tl (faults d)\<rparr>"

text \<open>\<open>t.sql.Exec(query, args...)\<close>: the result set is dropped by every caller.\<close>

definition Exec :: "stmt \<Rightarrow> db \<Rightarrow> error option \<times> db" where
  "Exec s d =
     (case next_fault d of
        Some m \<Rightarrow> (Some (DriverError m), after_call d)
      | None \<Rightarrow>
          (let (err, t) = run s (now d) (tracking d)
           in (err, (after_call d)\<lparr>tracking := t, general_log := general_log d @ [s]\<rparr>)))"

subsection \<open>The entity\<close>

text \<open>
  \<open>type Entity struct\<close>: the three columns, and the connection \<open>sql\<close> (a handle, nil in
  an entity that only receives a row).
\<close>

record Entity =
  ID :: "32 word"
  Name :: string
  CreatedAt :: nat
  sql :: "nat option"

text \<open>\<open>&Entity{}\<close>\<close>

definition Entity_zero :: Entity where
  "Entity_zero = \<lparr>ID = 0, Name = [], CreatedAt = 0, sql = None\<rparr>"

text \<open>
  \<open>t.sql.Get(dest, query)\<close> for the one query this package gets: the first row of the
  result is scanned into the columns of \<open>dest\<close>; without a row \<open>dest\<close> stays as it was
  and the error is \<open>sql.ErrNoRows\<close>; on any other error \<open>dest\<close> stays as it was too.
\<close>

definition Get :: "Entity \<Rightarrow> stmt \<Rightarrow> db \<Rightarrow> (Entity \<times> error option) \<times> db" where
  "Get dest s d =
     (case next_fault d of
        Some m \<Rightarrow> ((dest, Some (DriverError m)), after_call d)
      | None \<Rightarrow>
          (let d' = (after_call d)\<lparr>general_log := general_log d @ [s]\<rparr> in
           case tracking d of
             None \<Rightarrow> ((dest, Some (MySQLError ER_NO_SUCH_TABLE)), d')
           | Some t \<Rightarrow>
               (case latest (rows t) of
                  None \<Rightarrow> ((dest, Some ErrNoRows), d')
                | Some r \<Rightarrow>
                    ((dest\<lparr>ID := row_id r, Name := row_name r,
                           CreatedAt := row_created_at r\<rparr>, None), d'))))"

subsection \<open>The backend contract\<close>

text \<open>\<open>func (t *Entity) Extension() string\<close>\<close>

definition Extension :: string where
  "Extension = ''.sql''"

text \<open>
  \<open>func (t *Entity) UpdateConfig(config *database.Info)\<close>: the struct behind the
  pointer after the call.
\<close>

definition UpdateConfig :: "'a database_Info_scheme \<Rightarrow> 'a database_Info_scheme" where
  "UpdateConfig config = config\<lparr>Parameter := ''parseTime=true&multiStatements=true''\<rparr>"

text \<open>\<open>func (t *Entity) TableExist() error\<close>\<close>

definition TableExist :: "db \<Rightarrow> error option \<times> db" where
  "TableExist d =
     (let (err, d) = Exec SelectOne d in
      if err \<noteq> None then (err, d) else (err, d))"

text \<open>\<open>func (t *Entity) CreateTable() error\<close>\<close>

definition CreateTable :: "db \<Rightarrow> error option \<times> db" where
  "CreateTable d =
     (let (err, d) = Exec CreateMigrationTable d in
      if err \<noteq> None then (err, d) else (err, d))"

text \<open>\<open>func (t *Entity) Status() (string, error)\<close>\<close>

definition Status :: "db \<Rightarrow> (string \<times> error option) \<times> db" where
  "Status d =
     (let result = Entity_zero;
          ((result, err), d) = Get result SelectLatest d;
          err = (if err = Some ErrNoRows then None else err)
      in ((Name result, err), d))"

text \<open>\<open>func (t *Entity) statusID() (uint32, error)\<close>\<close>

definition statusID :: "db \<Rightarrow> (32 word \<times> error option) \<times> db" where
  "statusID d =
     (let result = Entity_zero;
          ((result, err), d) = Get result SelectLatest d
      in ((ID result, err), d))"

text \<open>\<open>func (t *Entity) RecordUp(name string) error\<close>\<close>

definition RecordUp :: "string \<Rightarrow> db \<Rightarrow> error option \<times> db" where
  "RecordUp name d = Exec (InsertName name) d"

text \<open>
  \<open>func (t *Entity) RecordDown(name string) error\<close>: \<open>nextID\<close> starts at 1 and
  becomes the identifier \<open>statusID\<close> returns unless \<open>statusID\<close> fails; of its errors
  only \<open>sql.ErrNoRows\<close> lets the function go on to the \<open>ALTER TABLE\<close>.
\<close>

definition RecordDown :: "string \<Rightarrow> db \<Rightarrow> error option \<times> db" where
  "RecordDown name d =
     (let (err, d) = Exec (DeleteName name) d in
      if err = None then
        (let nextID = 1;
             ((ID, err), d) = statusID d
         in if err = Some ErrNoRows then Exec (AlterAutoIncrement nextID) d
            else if err \<noteq> None then (err, d)
            else Exec (AlterAutoIncrement ID) d)
      else (err, d))"

subsection \<open>The stored configuration\<close>

text \<open>
  The package-level variable \<open>info\<close> and the variables of its callers, as a store from
  variables to structs. \<open>infoMutex\<close> orders the calls; one call at a time is all the
  model has.
\<close>

datatype var = Global_info | Local nat

type_synonym store = "var \<Rightarrow> database_Info"

text \<open>\<open>func SetConfig(i database.Info)\<close>\<close>

definition SetConfig :: "database_Info \<Rightarrow> store \<Rightarrow> store" where
  "SetConfig i \<sigma> = \<sigma>(Global_info := i)"

text \<open>\<open>func ResetConfig()\<close>\<close>

definition ResetConfig :: "store \<Rightarrow> store" where
  "ResetConfig \<sigma> = \<sigma>(Global_info := Info_zero)"

text \<open>\<open>func Config() database.Info\<close>: the struct is returned by value.\<close>

definition Config :: "store \<Rightarrow> database_Info" where
  "Config \<sigma> = \<sigma> Global_info"

text \<open>\<open>func Shared() Configuration\<close>\<close>

definition Shared :: "store \<Rightarrow> Configuration" where
  "Shared \<sigma> = \<lparr>Info = Config \<sigma>\<rparr>"

text \<open>
  A caller: \<open>x := Config()\<close> puts the returned struct into the caller's variable
  \<open>x\<close>, and a call that writes through the pointer \<open>&x\<close> (as \<open>UpdateConfig(&x)\<close>
  does) changes the struct held by that variable.
\<close>

definition assign_Config :: "nat \<Rightarrow> store \<Rightarrow> store" where
  "assign_Config x \<sigma> = \<sigma>(Local x := Config \<sigma>)"

definition write_through :: "var \<Rightarrow> (database_Info \<Rightarrow> database_Info) \<Rightarrow> store \<Rightarrow> store" where
  "write_through p f \<sigma> = \<sigma>(p := f (\<sigma> p))"

subsection \<open>Creating the migration session\<close>

text \<open>
  \<open>Configuration.New\<close> reads the environment, connects and hands over to
  \<open>migration.New\<close>. What it calls outside mysql.go is the world below: every call is
  appended to \<open>calls\<close>, and its outcome is read from the world.
\<close>

datatype call =
    CallConnect database_Info bool
  | CallCreate database_Info nat
  | CallClose nat
  | CallMigrationNew Entity string

text \<open>
  \<open>environ\<close> holds the environment variables, \<open>wd\<close> the working directory,
  \<open>existing\<close> the paths that exist. \<open>connect_results\<close>, \<open>create_results\<close>,
  \<open>close_results\<close> and \<open>new_results\<close> are the errors of the coming calls of
  \<open>Connect\<close>, \<open>Create\<close>, \<open>Close\<close> and \<open>migration.New\<close> (the head is for the next
  call, a list that has run out means success). \<open>opened\<close> counts the connections,
  which gives each its handle.
\<close>

record world =
  environ :: "(string \<times> string) list"
  wd :: string
  existing :: "string list"
  connect_results :: "error option list"
  create_results :: "error option list"
  close_results :: "error option list"
  new_results :: "error option list"
  opened :: nat
  calls :: "call list"

text \<open>The functions of path/filepath that \<open>New\<close> uses.\<close>

record filepath =
  Dir :: "string \<Rightarrow> string"
  Join :: "string \<Rightarrow> string \<Rightarrow> string"

text \<open>\<open>os.Getenv\<close>: the empty string for a variable that is not set.\<close>

definition Getenv :: "world \<Rightarrow> string \<Rightarrow> string" where
  "Getenv w k = (case map_of (environ w) k of None \<Rightarrow> [] | Some v \<Rightarrow> v)"

text \<open>\<open>dir, _ := os.Getwd()\<close>\<close>

definition Getwd :: "world \<Rightarrow> string" where
  "Getwd w = wd w"

text \<open>
  Modelled from the spec: \<open>file.Exists\<close> of the package \<open>file\<close>, which says whether the
  path exists.
\<close>

definition file_Exists :: "world \<Rightarrow> string \<Rightarrow> bool" where
  "file_Exists w p = (p \<in> set (existing w))"

definition next_result :: "error option list \<Rightarrow> error option" where
  "next_result rs = (case rs of [] \<Rightarrow> None | r # _ \<Rightarrow> r)"

text \<open>
  Modelled from the spec: \<open>Info.Connect(specificDatabase)\<close> of the driver package opens a
  connection with or without the database selected and returns it with the error. As
  the comment at its first call in \<open>New\<close> says, a connection that failed is still a
  connection that can be closed.
\<close>

definition Connect :: "database_Info \<Rightarrow> bool \<Rightarrow> world \<Rightarrow> (nat \<times> error option) \<times> world" where
  "Connect i specificDatabase w =
     ((opened w, next_result (connect_results w)),
      w\<lparr>connect_results := tl (connect_results w), opened := opened w + 1,
        calls := calls w @ [CallConnect i specificDatabase]\<rparr>)"

text \<open>
  Modelled from the spec: \<open>Info.Create(con)\<close> of the driver package issues the
  \<open>CREATE DATABASE\<close> on the connection.
\<close>

definition Create :: "database_Info \<Rightarrow> nat \<Rightarrow> world \<Rightarrow> error option \<times> world" where
  "Create i con w =
     (next_result (create_results w),
      w\<lparr>create_results := tl (create_results w), calls := calls w @ [CallCreate i con]\<rparr>)"

text \<open>\<open>con.Close()\<close> of database/sql, which returns an error.\<close>

definition Close :: "nat \<Rightarrow> world \<Rightarrow> error option \<times> world" where
  "Close con w =
     (next_result (close_results w),
      w\<lparr>close_results := tl (close_results w), calls := calls w @ [CallClose con]\<rparr>)"

text \<open>
  Modelled from the spec: \<open>migration.New(db, folder)\<close> of the package \<open>migration\<close> binds
  the backend to the migration folder and returns the session, or an error.
\<close>

record migration_Info =
  DB :: Entity
  Folder :: string

definition migration_New ::
  "Entity \<Rightarrow> string \<Rightarrow> world \<Rightarrow> (migration_Info option \<times> error option) \<times> world" where
  "migration_New mi folder w =
     ((case next_result (new_results w) of
         None \<Rightarrow> (Some \<lparr>DB = mi, Folder = folder\<rparr>, None)
       | Some e \<Rightarrow> (None, Some e)),
      w\<lparr>new_results := tl (new_results w), calls := calls w @ [CallMigrationNew mi folder]\<rparr>)"

text \<open>
  \<open>func (c Configuration) New() (*migration.Info, error)\<close>. \<open>mig\<close> is the nil
  pointer that every early return hands back; what \<open>con.Close()\<close> returns is not
  looked at (\<open>dropped\<close> below).
\<close>

definition New ::
  "filepath \<Rightarrow> Configuration \<Rightarrow> world \<Rightarrow> (migration_Info option \<times> error option) \<times> world" where
  "New fp c w =
     (let mig = None;
          i = Info c;
          projectRoot = Dir fp (Getenv w ''JAYCONFIG'');
          folder = Join fp projectRoot (MigrationFolder i);
          folder = (if \<not> file_Exists w folder
                    then (let dir = Getwd w in Join fp dir (MigrationFolder i))
                    else folder);
          mi = Entity_zero;
          i = UpdateConfig i;
          ((con, err), w) = Connect i True w
      in if err \<noteq> None then
           (let (dropped, w) = Close con w;
                ((con, err), w) = Connect i False w
            in if err \<noteq> None then ((mig, err), w)
               else
                 (let (err, w) = Create i con w
                  in if err \<noteq> None then ((mig, err), w)
                     else
                       (let (dropped, w) = Close con w;
                            ((con, err), w) = Connect i True w
                        in if err \<noteq> None then ((mig, err), w)
                           else migration_New (mi\<lparr>sql := Some con\<rparr>) folder w)))
         else migration_New (mi\<lparr>sql := Some con\<rparr>) folder w)"

subsection \<open>Notions the properties are stated with\<close>

text \<open>The connection lets the next \<open>n\<close> calls through.\<close>

definition healthy :: "nat \<Rightarrow> db \<Rightarrow> bool" where
  "healthy n d = list_all (\<lambda>f. f = None) (take n (faults d))"

text \<open>
  The value that \<open>RecordDown\<close> names in its \<open>ALTER TABLE\<close>: the identifier of the
  latest row, 1 for a table without rows.
\<close>

definition nextID_of :: "row list \<Rightarrow> 32 word" where
  "nextID_of rs = (case latest rs of None \<Rightarrow> 1 | Some r \<Rightarrow> row_id r)"

text \<open>Identifiers that AUTO_INCREMENT hands out start at 1.\<close>

definition positive_ids :: "row list \<Rightarrow> bool" where
  "positive_ids rs = list_all (\<lambda>r. 0 < row_id r) rs"

text \<open>The identifier recorded for a name.\<close>

definition id_of :: "string \<Rightarrow> db \<Rightarrow> 32 word option" where
  "id_of n d =
     (case tracking d of
        None \<Rightarrow> None
      | Some t \<Rightarrow> map_option row_id (find (\<lambda>r. row_name r = n) (rows t)))"

text \<open>
  A table whose rows were inserted one after the other by AUTO_INCREMENT: identifiers
  grow along the storage order and stay below the counter.
\<close>

definition applied_in_order :: "table \<Rightarrow> bool" where
  "applied_in_order t =
     (sorted_wrt (\<lambda>a b. row_id a < row_id b) (rows t)
      \<and> list_all (\<lambda>r. unat (row_id r) < auto_increment t) (rows t))"

text \<open>The row with the latest \<open>created_at\<close> (the later row among equal ones).\<close>

fun newest :: "row list \<Rightarrow> row option" where
  "newest [] = None"
| "newest (r # rs) =
     (case newest rs of
        None \<Rightarrow> Some r
      | Some m \<Rightarrow> if row_created_at m < row_created_at r then Some r else Some m)"

subsection \<open>path/filepath on a Unix system\<close>

text \<open>
  \<open>Clean\<close>, \<open>Dir\<close> and \<open>Join\<close> of two elements as the package documents them for
  paths with the separator \<open>/\<close>; they are the \<open>filepath\<close> of the examples.
\<close>

fun split_slash :: "string \<Rightarrow> string list" where
  "split_slash [] = [[]]"
| "split_slash (c # cs) =
     (if c = CHR ''/'' then [] # split_slash cs
      else (case split_slash cs of [] \<Rightarrow> [[c]] | e # es \<Rightarrow> (c # e) # es))"

fun clean_elems :: "bool \<Rightarrow> string list \<Rightarrow> string list \<Rightarrow> string list" where
  "clean_elems rooted [] out = rev out"
| "clean_elems rooted (e # es) out =
     (if e = [] \<or> e = ''.'' then clean_elems rooted es out
      else if e = ''..'' then
        (case out of
           [] \<Rightarrow> if rooted then clean_elems rooted es [] else clean_elems rooted es [e]
         | p # ps \<Rightarrow> if p = ''..'' then clean_elems rooted es (e # out)
                     else clean_elems rooted es ps)
      else clean_elems rooted es (e # out))"

fun join_slash :: "string list \<Rightarrow> string" where
  "join_slash [] = []"
| "join_slash [e] = e"
| "join_slash (e # es) = e @ ''/'' @ join_slash es"

definition unix_Clean :: "string \<Rightarrow> string" where
  "unix_Clean p =
     (let rooted = (p \<noteq> [] \<and> hd p = CHR ''/'');
          s = (if rooted then ''/'' else []) @ join_slash (clean_elems rooted (split_slash p) [])
      in if s = [] then ''.'' else s)"

definition unix_Dir :: "string \<Rightarrow> string" where
  "unix_Dir p = unix_Clean (rev (dropWhile (\<lambda>c. c \<noteq> CHR ''/'') (rev p)))"

definition unix_Join :: "string \<Rightarrow> string \<Rightarrow> string" where
  "unix_Join a b =
     (if a \<noteq> [] then unix_Clean (a @ ''/'' @ b)
      else if b \<noteq> [] then unix_Clean b
      else [])"

definition unix_filepath :: filepath where
  "unix_filepath = \<lparr>Dir = unix_Dir, Join = unix_Join\<rparr>"

subsection \<open>More notions\<close>

text \<open>The table is in the order of application, when there is one.\<close>

definition db_in_order :: "db \<Rightarrow> bool" where
  "db_in_order d = (case tracking d of None \<Rightarrow> True | Some t \<Rightarrow> applied_in_order t)"

text \<open>The counter of the table, and the identifier of its latest row.\<close>

definition counter_of :: "db \<Rightarrow> nat option" where
  "counter_of d = map_option auto_increment (tracking d)"

definition latest_id_of :: "db \<Rightarrow> nat option" where
  "latest_id_of d =
     (case tracking d of
        None \<Rightarrow> None
      | Some t \<Rightarrow> map_option (\<lambda>r. unat (row_id r)) (latest (rows t)))"

text \<open>The same state with other \<open>created_at\<close> values in the rows.\<close>

definition retimed :: "(row \<Rightarrow> nat) \<Rightarrow> db \<Rightarrow> db" where
  "retimed f d =
     d\<lparr>tracking := map_option
          (\<lambda>t. t\<lparr>rows := map (\<lambda>r. r\<lparr>row_created_at := f r\<rparr>) (rows t)\<rparr>) (tracking d)\<rparr>"

text \<open>How many \<open>ALTER TABLE\<close> statements a log holds.\<close>

definition count_alter :: "stmt list \<Rightarrow> nat" where
  "count_alter l =
     length (filter (\<lambda>s. case s of AlterAutoIncrement v \<Rightarrow> True | _ \<Rightarrow> False) l)"

text \<open>How many connections a list of calls opens.\<close>

definition connect_count :: "call list \<Rightarrow> nat" where
  "connect_count cs =
     length (filter (\<lambda>x. case x of CallConnect i b \<Rightarrow> True | _ \<Rightarrow> False) cs)"

text \<open>
  The recovery after a failed first connection, in full: that first connection is
  opened and closed, then come the connection without a database, the
  \<open>CREATE DATABASE\<close>, the close and the connection with the database. \<open>h\<close> is the
  handle of the first connection.
\<close>

definition recovery_cycle :: "database_Info \<Rightarrow> nat \<Rightarrow> call list" where
  "recovery_cycle i h =
     [CallConnect i True, CallClose h, CallConnect i False,
      CallCreate i (h + 1), CallClose (h + 1), CallConnect i True]"

text \<open>
  The migration folder in the specification's words: the configured path joined to the
  directory of the path in \<open>JAYCONFIG\<close>, and joined to the working directory instead
  when that folder does not exist.
\<close>

definition resolved_folder :: "filepath \<Rightarrow> Configuration \<Rightarrow> world \<Rightarrow> string" where
  "resolved_folder fp c w =
     (let joined = Join fp (Dir fp (Getenv w ''JAYCONFIG'')) (MigrationFolder (Info c))
      in if file_Exists w joined then joined
         else Join fp (Getwd w) (MigrationFolder (Info c)))"

subsection \<open>Example states\<close>

text \<open>A table just created, and three migrations applied in order.\<close>

definition db_empty :: db where
  "db_empty = \<lparr>tracking = Some \<lparr>rows = [], auto_increment = 1\<rparr>,
     now = 0, general_log = [], faults = []\<rparr>"

definition db_abc :: db where
  "db_abc = \<lparr>tracking = Some \<lparr>rows =
       [\<lparr>row_id = 1, row_name = ''001_users'', row_created_at = 10\<rparr>,
        \<lparr>row_id = 2, row_name = ''002_posts'', row_created_at = 11\<rparr>,
        \<lparr>row_id = 3, row_name = ''003_tags'', row_created_at = 12\<rparr>],
       auto_increment = 4\<rparr>,
     now = 20, general_log = [], faults = []\<rparr>"

text \<open>The same table behind a connection that breaks at its second call.\<close>

definition db_lost :: db where
  "db_lost = db_abc\<lparr>faults := [None, Some ''invalid connection'']\<rparr>"

text \<open>A table whose row with the larger identifier carries the older timestamp.\<close>

definition db_skewed :: db where
  "db_skewed = \<lparr>tracking = Some \<lparr>rows =
       [\<lparr>row_id = 1, row_name = ''001_users'', row_created_at = 50\<rparr>,
        \<lparr>row_id = 2, row_name = ''002_posts'', row_created_at = 40\<rparr>],
       auto_increment = 3\<rparr>,
     now = 60, general_log = [], faults = []\<rparr>"

text \<open>A database without the tracking table, and one that cannot be reached.\<close>

definition db_absent :: db where
  "db_absent = \<lparr>tracking = None, now = 0, general_log = [], faults = []\<rparr>"

definition db_unreachable :: db where
  "db_unreachable = db_absent\<lparr>faults := [Some ''invalid connection'']\<rparr>"

text \<open>Three migrations applied to the new table, two rolled back, one applied.\<close>

definition applied_three :: db where
  "applied_three =
     snd (RecordUp ''003_tags''
       (snd (RecordUp ''002_posts'' (snd (RecordUp ''001_users'' db_empty)))))"

definition rolled_back_two :: db where
  "rolled_back_two =
     snd (RecordDown ''002_posts'' (snd (RecordDown ''003_tags'' applied_three)))"

definition applied_next :: db where
  "applied_next = snd (RecordUp ''004_likes'' rolled_back_two)"

text \<open>A configuration, and worlds for \<open>New\<close>.\<close>

definition cfg :: Configuration where
  "cfg = \<lparr>Info = \<lparr>Username = ''root'', Password = ''secret'', Database = ''blog'',
     Hostname = ''127.0.0.1'', Parameter = ''parseTime=false'',
     MigrationFolder = ''migration/mysql''\<rparr>\<rparr>"

definition world_ready :: world where
  "world_ready = \<lparr>environ = [(''JAYCONFIG'', ''/srv/app/env.json'')], wd = ''/home/dev'',
     existing = [''/srv/app/migration/mysql''], connect_results = [],
     create_results = [], close_results = [], new_results = [], opened = 0, calls = []\<rparr>"

definition world_elsewhere :: world where
  "world_elsewhere = world_ready\<lparr>existing := []\<rparr>"

text \<open>
  The database does not exist yet (error 1049, unknown database): once with a
  reconnect that fails, once with a close that fails.
\<close>

definition world_no_database :: world where
  "world_no_database = world_ready\<lparr>connect_results :=
     [Some (MySQLError 1049), None, Some (DriverError ''invalid connection'')]\<rparr>"

definition world_close_fails :: world where
  "world_close_fails = world_ready\<lparr>connect_results := [Some (MySQLError 1049)],
     close_results := [None, Some (DriverError ''broken pipe'')]\<rparr>"

section \<open>Properties\<close>

subsection \<open>Words of 32 bits\<close>

lemma unat_word_of_nat_32: "c < 2 ^ 32 \<Longrightarrow> unat (word_of_nat c :: 32 word) = c"
  by (simp add: unat_of_nat)

lemma word_of_nat_eq_32:
  assumes "a < 2 ^ 32" and "b < 2 ^ 32"
  shows "(word_of_nat a :: 32 word) = word_of_nat b \<longleftrightarrow> a = b"
proof
  assume "(word_of_nat a :: 32 word) = word_of_nat b"
  then have "unat (word_of_nat a :: 32 word) = unat (word_of_nat b :: 32 word)" by simp
  then show "a = b" using assms by (simp add: unat_word_of_nat_32)
qed simp

subsection \<open>The rows of the table\<close>

lemma latest_None: "latest rs = None \<longleftrightarrow> rs = []"
  by (induction rs) (auto split: option.splits)

lemma latest_in: "latest rs = Some r \<Longrightarrow> r \<in> set rs"
  by (induction rs arbitrary: r) (auto split: option.splits if_splits)

lemma latest_max: "latest rs = Some r \<Longrightarrow> r' \<in> set rs \<Longrightarrow> row_id r' \<le> row_id r"
  by (induction rs arbitrary: r) (auto split: option.splits if_splits simp: latest_None)

lemma max_id_latest: "latest rs = Some r \<Longrightarrow> max_id rs = unat (row_id r)"
  apply (induction rs arbitrary: r) 
   apply (auto split: option.splits if_splits simp: latest_None max_id_def word_le_nat_alt)
  done

lemma max_id_ge: "r \<in> set rs \<Longrightarrow> unat (row_id r) \<le> max_id rs"
  by (induction rs) (auto simp: max_id_def)

lemma latest_sorted:
  "sorted_wrt (\<lambda>a b. row_id a < row_id b) rs \<Longrightarrow> rs \<noteq> [] \<Longrightarrow> latest rs = Some (last rs)"
proof (induction rs)
  case Nil
  then show ?case by simp
next
  case (Cons r rs)
  show ?case
  proof (cases "rs = []")
    case True
    then show ?thesis by simp
  next
    case False
    then have l: "latest rs = Some (last rs)" using Cons by simp
    have "last rs \<in> set rs" using False by simp
    then have "row_id r < row_id (last rs)" using Cons.prems(1) by simp
    then have "\<not> row_id (last rs) \<le> row_id r" by simp
    then show ?thesis using l False by simp
  qed
qed

lemma latest_retimed:
  "latest (map (\<lambda>r. r\<lparr>row_created_at := f r\<rparr>) rs) =
   map_option (\<lambda>r. r\<lparr>row_created_at := f r\<rparr>) (latest rs)"
  by (induction rs) (auto split: option.splits)

lemma delete_name_filter:
  "distinct (map row_name rs) \<Longrightarrow> delete_name n rs = filter (\<lambda>r. row_name r \<noteq> n) rs"
  apply (induction rs) apply auto
  by (metis (mono_tags, lifting) filter_True image_eqI)

lemma length_delete_name:
  "n \<in> row_name ` set rs \<Longrightarrow> Suc (length (delete_name n rs)) = length rs"
  by (induction rs) auto

lemma set_delete_name_subset: "set (delete_name n rs) \<subseteq> set rs"
  by (induction rs) auto

lemma sorted_wrt_delete_name:
  "sorted_wrt P rs \<Longrightarrow> sorted_wrt P (delete_name n rs)"
proof (induction rs)
  case Nil
  then show ?case by simp
next
  case (Cons r rs)
  then show ?case using set_delete_name_subset [of n rs] by auto
qed

lemma nextID_of_max:
  assumes "positive_ids rs"
  shows "nextID_of rs = max (word_of_nat (max_id rs)) 1"
proof (cases "latest rs")
  case None
  then have "rs = []" by (simp add: latest_None)
  then show ?thesis by (simp add: nextID_of_def max_id_def)
next
  case (Some r)
  have "r \<in> set rs" using Some by (rule latest_in)
  then have "0 < row_id r" using assms by (simp add: positive_ids_def list_all_iff)
  then have "1 \<le> row_id r" by (simp add: word_less_nat_alt word_le_nat_alt)
  moreover have "word_of_nat (max_id rs) = row_id r"
    using max_id_latest [OF Some] by simp
  ultimately show ?thesis using Some by (simp add: nextID_of_def max_def)
qed

subsection \<open>Calls on a healthy connection\<close>

lemma healthy_Suc: "healthy (Suc n) d \<Longrightarrow> next_fault d = None \<and> healthy n (after_call d)"
  by (cases "faults d") (auto simp: healthy_def next_fault_def after_call_def)

lemma healthy_next: "healthy (Suc n) d \<Longrightarrow> next_fault d = None"
  by (simp add: healthy_Suc)

lemma healthy_after: "healthy (Suc n) d \<Longrightarrow> healthy n (after_call d)"
  by (simp add: healthy_Suc)

lemma healthy_upd [simp]:
  "healthy n (d\<lparr>tracking := t\<rparr>) = healthy n d"
  "healthy n (d\<lparr>general_log := l\<rparr>) = healthy n d"
  by (simp_all add: healthy_def)

lemma next_fault_upd [simp]:
  "next_fault (d\<lparr>tracking := t\<rparr>) = next_fault d"
  "next_fault (d\<lparr>general_log := l\<rparr>) = next_fault d"
  by (simp_all add: next_fault_def)

lemma after_call_upd [simp]:
  "tracking (after_call d) = tracking d"
  "now (after_call d) = now d"
  "general_log (after_call d) = general_log d"
  "faults (after_call d) = tl (faults d)"
  by (simp_all add: after_call_def)

lemma healthy_drop:
  assumes "healthy (k + n) d"
  shows "healthy n (d\<lparr>faults := drop k (faults d)\<rparr>)"
proof -
  have "take n (drop k (faults d)) = drop k (take (k + n) (faults d))"
    by (simp add: drop_take)
  then have "set (take n (drop k (faults d))) \<subseteq> set (take (k + n) (faults d))"
    by (simp add: set_drop_subset)
  then show ?thesis using assms by (auto simp: healthy_def list_all_iff)
qed

lemma healthy_mono: "healthy m d \<Longrightarrow> n \<le> m \<Longrightarrow> healthy n d"
  using set_take_subset_set_take [of n m "faults d"]
  by (auto simp: healthy_def list_all_iff)

lemma healthy_3_cases:
  assumes "healthy 3 d"
  obtains "faults d = []" | "faults d = [None]" | "faults d = [None, None]"
    | fs where "faults d = None # None # None # fs"
proof (cases "faults d")
  case Nil then show ?thesis using that by simp
next
  case (Cons a as)
  note c1 = this
  show ?thesis
  proof (cases as)
    case Nil then show ?thesis using that c1 assms by (simp add: healthy_def)
  next
    case (Cons b bs)
    note c2 = this
    show ?thesis
    proof (cases bs)
      case Nil then show ?thesis using that c1 c2 assms by (simp add: healthy_def)
    next
      case (Cons c cs)
      then show ?thesis using that c1 c2 assms by (simp add: healthy_def numeral_3_eq_3)
    qed
  qed
qed

lemma Exec_healthy:
  "next_fault d = None \<Longrightarrow>
   Exec s d = (fst (run s (now d) (tracking d)),
               (after_call d)\<lparr>tracking := snd (run s (now d) (tracking d)),
                               general_log := general_log d @ [s]\<rparr>)"
  by (simp add: Exec_def split_beta)

lemma Exec_ok_table:
  assumes "Exec s d = (None, d')"
  shows "next_fault d = None"
  using assms by (cases "next_fault d") (simp_all add: Exec_def)

lemma Get_healthy:
  "next_fault d = None \<Longrightarrow> tracking d = Some t \<Longrightarrow>
   Get dest SelectLatest d =
     ((case latest (rows t) of
         None \<Rightarrow> (dest, Some ErrNoRows)
       | Some r \<Rightarrow> (dest\<lparr>ID := row_id r, Name := row_name r, CreatedAt := row_created_at r\<rparr>, None)),
      (after_call d)\<lparr>general_log := general_log d @ [SelectLatest]\<rparr>)"
  by (simp add: Get_def Let_def split: option.splits)

lemma Get_tracking [simp]: "tracking (snd (Get dest s d)) = tracking d"
  by (simp add: Get_def Let_def after_call_def split: option.splits)

lemma Get_log: 
  "general_log (snd (Get dest s d)) = general_log d \<or> general_log (snd (Get dest s d)) = general_log d @ [s]"
  by (simp add: Get_def Let_def after_call_def split: option.splits)

lemma Status_healthy:
  assumes "tracking d = Some t" and "next_fault d = None"
  shows "fst (Status d) = (case latest (rows t) of None \<Rightarrow> ([], None) | Some r \<Rightarrow> (row_name r, None))"
  using assms by (simp add: Status_def Get_healthy Entity_zero_def split: option.splits)

lemma statusID_healthy:
  assumes "tracking d = Some t" and "next_fault d = None"
  shows "fst (statusID d) = (case latest (rows t) of None \<Rightarrow> (0, Some ErrNoRows) | Some r \<Rightarrow> (row_id r, None))"
  using assms by (simp add: statusID_def Get_healthy Entity_zero_def split: option.splits)

lemma RecordUp_healthy:
  assumes "healthy (Suc n) d"
  shows "fst (RecordUp name d) = fst (run (InsertName name) (now d) (tracking d))"
    and "tracking (snd (RecordUp name d)) = snd (run (InsertName name) (now d) (tracking d))"
    and "now (snd (RecordUp name d)) = now d"
    and "healthy n (snd (RecordUp name d))"
  using healthy_next [OF assms] healthy_after [OF assms]
  by (simp_all add: RecordUp_def Exec_healthy del: run.simps)

lemma RecordDown_healthy:
  assumes t: "tracking d = Some t" and h: "healthy 3 d"
  shows "RecordDown name d =
    (None, d\<lparr>tracking := snd (run (AlterAutoIncrement (nextID_of (delete_name name (rows t))))
                                (now d) (Some (t\<lparr>rows := delete_name name (rows t)\<rparr>))),
             general_log := general_log d @
                [DeleteName name, SelectLatest,
                 AlterAutoIncrement (nextID_of (delete_name name (rows t)))],
             faults := drop 3 (faults d)\<rparr>)"
proof (cases d)
  case (fields T N L F)
  from h show ?thesis
  proof (cases rule: healthy_3_cases)
    case 1
    then show ?thesis using t fields
      by (simp add: RecordDown_def statusID_def Exec_def Get_def next_fault_def after_call_def
          Let_def nextID_of_def split: option.splits)
  next
    case 2
    then show ?thesis using t fields
      by (simp add: RecordDown_def statusID_def Exec_def Get_def next_fault_def after_call_def
          Let_def nextID_of_def split: option.splits)
  next
    case 3
    then show ?thesis using t fields
      by (simp add: RecordDown_def statusID_def Exec_def Get_def next_fault_def after_call_def
          Let_def nextID_of_def split: option.splits)
  next
    case (4 fs)
    then show ?thesis using t fields
      by (simp add: RecordDown_def statusID_def Exec_def Get_def next_fault_def after_call_def
          Let_def nextID_of_def split: option.splits)
  qed
qed

lemma RecordDown_healthy_proj:
  assumes "tracking d = Some t" and "healthy (3 + n) d"
  shows "fst (RecordDown name d) = None"
    and "tracking (snd (RecordDown name d)) =
          snd (run (AlterAutoIncrement (nextID_of (delete_name name (rows t)))) (now d)
                 (Some (t\<lparr>rows := delete_name name (rows t)\<rparr>)))"
    and "now (snd (RecordDown name d)) = now d"
    and "healthy n (snd (RecordDown name d))"
proof -
  have h3: "healthy 3 d"
    using assms(2) by (rule healthy_mono) simp
  note rd = RecordDown_healthy [OF assms(1) h3, of name]
  show "fst (RecordDown name d) = None" by (simp add: rd)
  show "tracking (snd (RecordDown name d)) =
          snd (run (AlterAutoIncrement (nextID_of (delete_name name (rows t)))) (now d)
                 (Some (t\<lparr>rows := delete_name name (rows t)\<rparr>)))"
    by (simp add: rd del: run.simps)
  show "now (snd (RecordDown name d)) = now d" by (simp add: rd)
  have "healthy n (d\<lparr>faults := drop 3 (faults d)\<rparr>)" using assms(2) by (rule healthy_drop)
  then show "healthy n (snd (RecordDown name d))" by (simp add: rd healthy_def)
qed

subsection \<open>Rows stay in the order of their application\<close>

text \<open>
  Whatever a statement does to a table that is in order leaves it in order, so the
  property holds in every state that \<open>CreateTable\<close>, \<open>RecordUp\<close> and \<open>RecordDown\<close>
  reach from a database without the table; and after a \<open>RecordUp\<close> that succeeded,
  \<open>Status\<close> returns its name.
\<close>

lemma applied_in_order_insert:
  assumes "applied_in_order t" and "auto_increment t < 2 ^ 32"
  shows "applied_in_order \<lparr>rows = rows t @ [\<lparr>row_id = word_of_nat (auto_increment t),
            row_name = n, row_created_at = c\<rparr>], auto_increment = auto_increment t + 1\<rparr>"
proof -
  have u: "unat (word_of_nat (auto_increment t) :: 32 word) = auto_increment t"
    using assms(2) by (rule unat_word_of_nat_32)
  have b: "\<And>r. r \<in> set (rows t) \<Longrightarrow> unat (row_id r) < auto_increment t"
    using assms(1) by (simp add: applied_in_order_def list_all_iff)
  have "\<And>r. r \<in> set (rows t) \<Longrightarrow> row_id r < word_of_nat (auto_increment t)"
    using b by (simp add: word_less_nat_alt u)
  moreover have "\<And>r. r \<in> set (rows t) \<Longrightarrow> unat (row_id r) < Suc (auto_increment t)"
    using b by (simp add: less_Suc_eq)
  ultimately show ?thesis
    using assms(1) by (simp add: applied_in_order_def sorted_wrt_append list_all_iff u)
qed

lemma applied_in_order_run:
  assumes "applied_in_order t" and "run s c (Some t) = (e, T')"
  shows "\<exists>t'. T' = Some t' \<and> applied_in_order t'"
proof (cases s)
  case SelectOne
  then show ?thesis using assms by auto
next
  case CreateMigrationTable
  then show ?thesis using assms by auto
next
  case SelectLatest
  then show ?thesis using assms by auto
next
  case (InsertName n)
  show ?thesis
  proof (cases "2 ^ 32 \<le> auto_increment t")
    case True
    then show ?thesis using assms InsertName by (auto simp: Let_def)
  next
    case False
    then have lt: "auto_increment t < 2 ^ 32" by simp
    show ?thesis
    proof (cases "n \<in> row_name ` set (rows t)
        \<or> (word_of_nat (auto_increment t) :: 32 word) \<in> row_id ` set (rows t)")
      case True
      then have "T' = Some (t\<lparr>auto_increment := auto_increment t + 1\<rparr>)"
        using assms(2) InsertName False by (simp add: Let_def)
      moreover have "applied_in_order (t\<lparr>auto_increment := auto_increment t + 1\<rparr>)"
        using assms(1) by (auto simp: applied_in_order_def list_all_iff less_Suc_eq)
      ultimately show ?thesis by simp
    next
      case False
      then have "T' = Some \<lparr>rows = rows t @ [\<lparr>row_id = word_of_nat (auto_increment t),
            row_name = n, row_created_at = c\<rparr>], auto_increment = auto_increment t + 1\<rparr>"
        using assms(2) InsertName lt by (simp add: Let_def)
      then show ?thesis using applied_in_order_insert [OF assms(1) lt] by simp
    qed
  qed
next
  case (DeleteName n)
  then have "T' = Some (t\<lparr>rows := delete_name n (rows t)\<rparr>)" using assms(2) by simp
  moreover have "applied_in_order (t\<lparr>rows := delete_name n (rows t)\<rparr>)"
    using assms(1) set_delete_name_subset [of n "rows t"]
    by (auto simp: applied_in_order_def list_all_iff sorted_wrt_delete_name)
  ultimately show ?thesis by simp
next
  case (AlterAutoIncrement v)
  then have "T' = Some (t\<lparr>auto_increment := max (unat v) (max_id (rows t) + 1)\<rparr>)"
    using assms(2) by simp
  moreover have "applied_in_order (t\<lparr>auto_increment := max (unat v) (max_id (rows t) + 1)\<rparr>)"
  proof -
    have "unat (row_id r) < max (unat v) (max_id (rows t) + 1)" if "r \<in> set (rows t)" for r
      using max_id_ge [OF that] by simp
    then show ?thesis
      using assms(1) by (simp add: applied_in_order_def list_all_iff)
  qed
  ultimately show ?thesis by simp
qed

lemma db_in_order_Exec:
  assumes "db_in_order d"
  shows "db_in_order (snd (Exec s d))"
proof (cases "next_fault d")
  case (Some m)
  then show ?thesis using assms by (simp add: Exec_def db_in_order_def)
next
  case None
  note nf = this
  show ?thesis
  proof (cases "tracking d")
    case None
    then show ?thesis using nf
      by (cases s) (simp_all add: Exec_def db_in_order_def applied_in_order_def)
  next
    case (Some t)
    obtain e T' where r: "run s (now d) (Some t) = (e, T')" by (cases "run s (now d) (Some t)")
    have "applied_in_order t" using assms Some by (simp add: db_in_order_def)
    then obtain t' where "T' = Some t'" "applied_in_order t'"
      using applied_in_order_run [OF _ r] by blast
    then show ?thesis using nf Some r by (simp add: Exec_def db_in_order_def)
  qed
qed

lemma db_in_order_Get: "db_in_order (snd (Get dest s d)) = db_in_order d"
  by (simp add: db_in_order_def)

lemma db_in_order_RecordUp: "db_in_order d \<Longrightarrow> db_in_order (snd (RecordUp n d))"
  by (simp add: RecordUp_def db_in_order_Exec)

lemma db_in_order_CreateTable: "db_in_order d \<Longrightarrow> db_in_order (snd (CreateTable d))"
  by (simp add: CreateTable_def split_beta db_in_order_Exec)

lemma db_in_order_RecordDown:
  assumes "db_in_order d"
  shows "db_in_order (snd (RecordDown n d))"
proof -
  let ?d1 = "snd (Exec (DeleteName n) d)"
  let ?d2 = "snd (statusID ?d1)"
  have 1: "db_in_order ?d1" using assms by (rule db_in_order_Exec)
  have 2: "db_in_order ?d2" using 1 by (simp add: statusID_def split_beta db_in_order_Get)
  have 3: "db_in_order (snd (Exec s ?d2))" for s using 2 by (rule db_in_order_Exec)
  show ?thesis
    using 1 2 3 by (simp add: RecordDown_def split_beta Let_def)
qed

lemma RecordUp_then_Status:
  assumes t: "tracking d = Some t" and o: "applied_in_order t" and h: "healthy 2 d"
    and ok: "fst (RecordUp name d) = None"
  shows "fst (Status (snd (RecordUp name d))) = (name, None)"
proof -
  have h2: "healthy (Suc (Suc 0)) d" using h by (simp add: numeral_2_eq_2)
  have nf: "next_fault d = None" using h2 by (rule healthy_next)
  have nf2: "next_fault (after_call d) = None"
    using healthy_after [OF h2] by (simp add: healthy_next)
  have r: "fst (run (InsertName name) (now d) (Some t)) = None"
    using ok nf t by (simp add: RecordUp_def Exec_healthy)
  let ?t' = "\<lparr>rows = rows t @ [\<lparr>row_id = word_of_nat (auto_increment t),
            row_name = name, row_created_at = now d\<rparr>], auto_increment = auto_increment t + 1\<rparr>"
  have lt: "auto_increment t < 2 ^ 32" and t': "snd (run (InsertName name) (now d) (Some t)) = Some ?t'"
    using r by (simp_all add: Let_def split: if_splits)
  have o': "applied_in_order ?t'" using o lt by (rule applied_in_order_insert)
  have tr: "tracking (snd (RecordUp name d)) = Some ?t'"
    using nf t t' by (simp add: RecordUp_def Exec_healthy del: run.simps)
  have nf': "next_fault (snd (RecordUp name d)) = None"
    using nf nf2 by (simp add: RecordUp_def Exec_healthy del: run.simps)
  have "fst (Status (snd (RecordUp name d))) = (row_name (last (rows ?t')), None)"
    using tr nf' o' by (simp add: Status_healthy latest_sorted applied_in_order_def del: run.simps)
  then show ?thesis by simp
qed

subsection \<open>The example run\<close>

lemma applied_three_eq:
  "applied_three = \<lparr>tracking = Some \<lparr>rows =
       [\<lparr>row_id = 1, row_name = ''001_users'', row_created_at = 0\<rparr>,
        \<lparr>row_id = 2, row_name = ''002_posts'', row_created_at = 0\<rparr>,
        \<lparr>row_id = 3, row_name = ''003_tags'', row_created_at = 0\<rparr>],
       auto_increment = 4\<rparr>,
     now = 0, general_log = [InsertName ''001_users'', InsertName ''002_posts'', InsertName ''003_tags''],
     faults = []\<rparr>"
  by (simp add: applied_three_def db_empty_def RecordUp_def Exec_def next_fault_def after_call_def Let_def)

lemma rolled_back_two_eq:
  "rolled_back_two = \<lparr>tracking = Some \<lparr>rows =
       [\<lparr>row_id = 1, row_name = ''001_users'', row_created_at = 0\<rparr>],
       auto_increment = 2\<rparr>,
     now = 0, general_log = [InsertName ''001_users'', InsertName ''002_posts'', InsertName ''003_tags'',
        DeleteName ''003_tags'', SelectLatest, AlterAutoIncrement 2,
        DeleteName ''002_posts'', SelectLatest, AlterAutoIncrement 1],
     faults = []\<rparr>"
  by (simp add: rolled_back_two_def applied_three_eq RecordDown_def statusID_def Get_def Exec_def
      next_fault_def after_call_def Let_def Entity_zero_def max_id_def word_le_nat_alt)

lemma applied_next_eq:
  "applied_next = \<lparr>tracking = Some \<lparr>rows =
       [\<lparr>row_id = 1, row_name = ''001_users'', row_created_at = 0\<rparr>,
        \<lparr>row_id = 2, row_name = ''004_likes'', row_created_at = 0\<rparr>],
       auto_increment = 3\<rparr>,
     now = 0, general_log = [InsertName ''001_users'', InsertName ''002_posts'', InsertName ''003_tags'',
        DeleteName ''003_tags'', SelectLatest, AlterAutoIncrement 2,
        DeleteName ''002_posts'', SelectLatest, AlterAutoIncrement 1, InsertName ''004_likes''],
     faults = []\<rparr>"
  by (simp add: applied_next_def rolled_back_two_eq RecordUp_def Exec_def next_fault_def after_call_def Let_def)

subsection \<open>The paths of Configuration.New\<close>

lemma New_direct:
  assumes "next_result (connect_results w) = None"
  shows "fst (New fp c w) =
           (case next_result (new_results w) of
              None \<Rightarrow> (Some \<lparr>DB = Entity_zero\<lparr>sql := Some (opened w)\<rparr>,
                              Folder = resolved_folder fp c w\<rparr>, None)
            | Some e \<Rightarrow> (None, Some e))"
    and "calls (snd (New fp c w)) = calls w @
           [CallConnect (UpdateConfig (Info c)) True,
            CallMigrationNew (Entity_zero\<lparr>sql := Some (opened w)\<rparr>) (resolved_folder fp c w)]"
  using assms
  by (simp_all add: New_def Connect_def migration_New_def resolved_folder_def Let_def
      split: option.splits)

lemma New_recovery:
  assumes "next_result (connect_results w) = Some e0"
  shows "fst (New fp c w) =
     (case next_result (tl (connect_results w)) of
        Some e1 \<Rightarrow> (None, Some e1)
      | None \<Rightarrow>
         (case next_result (create_results w) of
            Some ec \<Rightarrow> (None, Some ec)
          | None \<Rightarrow>
             (case next_result (tl (tl (connect_results w))) of
                Some e2 \<Rightarrow> (None, Some e2)
              | None \<Rightarrow>
                 (case next_result (new_results w) of
                    None \<Rightarrow> (Some \<lparr>DB = Entity_zero\<lparr>sql := Some (opened w + 2)\<rparr>,
                                    Folder = resolved_folder fp c w\<rparr>, None)
                  | Some e \<Rightarrow> (None, Some e)))))"
    and "calls (snd (New fp c w)) = calls w @
      [CallConnect (UpdateConfig (Info c)) True, CallClose (opened w),
       CallConnect (UpdateConfig (Info c)) False] @
      (case next_result (tl (connect_results w)) of
        Some e1 \<Rightarrow> []
      | None \<Rightarrow> CallCreate (UpdateConfig (Info c)) (opened w + 1) #
         (case next_result (create_results w) of
            Some ec \<Rightarrow> []
          | None \<Rightarrow> [CallClose (opened w + 1), CallConnect (UpdateConfig (Info c)) True] @
             (case next_result (tl (tl (connect_results w))) of
                Some e2 \<Rightarrow> []
              | None \<Rightarrow> [CallMigrationNew (Entity_zero\<lparr>sql := Some (opened w + 2)\<rparr>)
                            (resolved_folder fp c w)])))"
  using assms
  by (simp_all add: New_def Connect_def Create_def Close_def migration_New_def
      resolved_folder_def Let_def split: option.splits)

lemma unix_Dir_env: "unix_Dir ''/srv/app/env.json'' = ''/srv/app''"
  by (simp add: unix_Dir_def unix_Clean_def Let_def)

lemma unix_Join_root:
  "unix_Join ''/srv/app'' ''migration/mysql'' = ''/srv/app/migration/mysql''"
  by (simp add: unix_Join_def unix_Clean_def Let_def)

lemma unix_Join_wd:
  "unix_Join ''/home/dev'' ''migration/mysql'' = ''/home/dev/migration/mysql''"
  by (simp add: unix_Join_def unix_Clean_def Let_def)

subsection \<open>RecordDown\<close>

text \<open>
  Claim C1, as it holds. For every migration name present in the tracking table (names
  are unique, identifiers start at 1, and the connection lets the three calls through),
  \<open>RecordDown name\<close> returns no error, deletes the row of that name and no other,
  and then sends \<open>ALTER TABLE migration AUTO_INCREMENT = v\<close>, where \<open>v\<close> is the
  identifier of the latest remaining row, which is \<open>max(id, 1)\<close> of the largest
  remaining identifier, and \<open>v = 1\<close> when no row remains. The server does not keep a
  counter at or below the largest identifier: the counter of the table afterwards is
  the identifier of the latest remaining row plus one, the identifier the next insert
  receives, and it is 1 when no row remains.
\<close>

theorem RecordDown_deletes_and_renumbers:
  assumes "tracking d = Some t"
    and "name \<in> row_name ` set (rows t)"
    and "distinct (map row_name (rows t))"
    and "positive_ids (rows t)"
    and "healthy 3 d"
  shows "let remaining = filter (\<lambda>r. row_name r \<noteq> name) (rows t);
             d' = snd (RecordDown name d)
         in fst (RecordDown name d) = None
          \<and> Suc (length remaining) = length (rows t)
          \<and> general_log d' = general_log d @
               [DeleteName name, SelectLatest, AlterAutoIncrement (nextID_of remaining)]
          \<and> tracking d' = snd (run (AlterAutoIncrement (nextID_of remaining)) (now d)
                                 (Some (t\<lparr>rows := remaining\<rparr>)))
          \<and> tracking d' =
               Some (t\<lparr>rows := remaining, auto_increment := max_id remaining + 1\<rparr>)
          \<and> map_option rows (tracking d') = Some remaining
          \<and> counter_of d' = Some (max_id remaining + 1)
          \<and> nextID_of remaining = max (word_of_nat (max_id remaining)) 1
          \<and> (case latest remaining of
                None \<Rightarrow> remaining = [] \<and> nextID_of remaining = 1
                    \<and> counter_of d' = Some 1
              | Some r \<Rightarrow> r \<in> set remaining \<and> nextID_of remaining = row_id r
                    \<and> list_all (\<lambda>r'. row_id r' \<le> row_id r) remaining
                    \<and> counter_of d' = Some (unat (row_id r) + 1))"
proof -
  let ?rs = "filter (\<lambda>r. row_name r \<noteq> name) (rows t)"
  let ?t' = "t\<lparr>rows := ?rs, auto_increment := max_id ?rs + 1\<rparr>"
  have del: "delete_name name (rows t) = ?rs"
    using assms(3) by (rule delete_name_filter)
  have alter: "run (AlterAutoIncrement (nextID_of ?rs)) (now d) (Some (t\<lparr>rows := ?rs\<rparr>)) =
      (None, Some ?t')"
  proof (cases "latest ?rs")
    case None
    then have "?rs = []" by (simp add: latest_None)
    then show ?thesis by (simp add: nextID_of_def max_id_def)
  next
    case (Some r)
    then show ?thesis using max_id_latest [OF Some] by (simp add: nextID_of_def)
  qed
  have rd: "RecordDown name d =
    (None, d\<lparr>tracking := Some ?t',
             general_log := general_log d @
                [DeleteName name, SelectLatest, AlterAutoIncrement (nextID_of ?rs)],
             faults := drop 3 (faults d)\<rparr>)"
    using RecordDown_healthy [OF assms(1) assms(5), of name]
    by (simp only: del alter snd_conv)
  have len: "Suc (length ?rs) = length (rows t)"
    using length_delete_name [OF assms(2)] by (simp only: del)
  have pos: "positive_ids ?rs"
    using assms(4) by (simp add: positive_ids_def list_all_iff)
  have mx: "nextID_of ?rs = max (word_of_nat (max_id ?rs)) 1"
    using pos by (rule nextID_of_max)
  have lt: "case latest ?rs of
                None \<Rightarrow> ?rs = [] \<and> nextID_of ?rs = 1 \<and> max_id ?rs = 0
              | Some r \<Rightarrow> r \<in> set ?rs \<and> nextID_of ?rs = row_id r
                    \<and> list_all (\<lambda>r'. row_id r' \<le> row_id r) ?rs
                    \<and> max_id ?rs = unat (row_id r)"
  proof (cases "latest ?rs")
    case None
    then show ?thesis by (simp add: latest_None nextID_of_def max_id_def)
  next
    case (Some r)
    then show ?thesis
      using latest_in [OF Some] latest_max [OF Some] max_id_latest [OF Some]
      by (simp add: nextID_of_def list_all_iff)
  qed
  have c: "counter_of (snd (RecordDown name d)) = Some (max_id ?rs + 1)"
    by (simp add: rd counter_of_def)
  have tr: "tracking (snd (RecordDown name d)) = Some ?t'"
    by (simp add: rd)
  have lg: "general_log (snd (RecordDown name d)) = general_log d @
      [DeleteName name, SelectLatest, AlterAutoIncrement (nextID_of ?rs)]"
    by (simp add: rd)
  have e: "fst (RecordDown name d) = None" by (simp add: rd)
  have main: "case latest ?rs of
                None \<Rightarrow> ?rs = [] \<and> nextID_of ?rs = 1
                    \<and> counter_of (snd (RecordDown name d)) = Some 1
              | Some r \<Rightarrow> r \<in> set ?rs \<and> nextID_of ?rs = row_id r
                    \<and> list_all (\<lambda>r'. row_id r' \<le> row_id r) ?rs
                    \<and> counter_of (snd (RecordDown name d)) = Some (unat (row_id r) + 1)"
    using lt by (cases "latest ?rs") (auto simp: c)
  have tr2: "tracking (snd (RecordDown name d)) =
      snd (run (AlterAutoIncrement (nextID_of ?rs)) (now d) (Some (t\<lparr>rows := ?rs\<rparr>)))"
    by (simp only: tr alter snd_conv)
  have rws: "map_option rows (tracking (snd (RecordDown name d))) = Some ?rs"
    by (simp add: tr)
  show ?thesis
    unfolding Let_def
    by (intro conjI) (rule e len lg tr2 tr rws c mx main)+
qed

theorem RecordDown_deletes_and_renumbers_witness:
  "fst (RecordDown ''003_tags'' db_abc) = None
   \<and> general_log (snd (RecordDown ''003_tags'' db_abc)) =
        [DeleteName ''003_tags'', SelectLatest, AlterAutoIncrement 2]
   \<and> tracking (snd (RecordDown ''003_tags'' db_abc)) =
        Some \<lparr>rows = [\<lparr>row_id = 1, row_name = ''001_users'', row_created_at = 10\<rparr>,
                      \<lparr>row_id = 2, row_name = ''002_posts'', row_created_at = 11\<rparr>],
              auto_increment = 3\<rparr>"
proof -
  have t: "tracking db_abc = Some \<lparr>rows =
       [\<lparr>row_id = 1, row_name = ''001_users'', row_created_at = 10\<rparr>,
        \<lparr>row_id = 2, row_name = ''002_posts'', row_created_at = 11\<rparr>,
        \<lparr>row_id = 3, row_name = ''003_tags'', row_created_at = 12\<rparr>],
       auto_increment = 4\<rparr>"
    by (simp add: db_abc_def)
  show ?thesis
    using RecordDown_deletes_and_renumbers [OF t, of "''003_tags''"]
    by (simp add: positive_ids_def healthy_def db_abc_def nextID_of_def Let_def
        word_le_nat_alt word_less_nat_alt max_id_def)
qed

text \<open>
  Claim C1 as stated has the counter of the table set to the identifier of the latest
  remaining row. After \<open>003_tags\<close> is rolled back the latest remaining row has the
  identifier 2, the statement sent names 2, and the counter of the table is 3.
\<close>

theorem RecordDown_counter_is_next_identifier_counterexample:
  "latest_id_of (snd (RecordDown ''003_tags'' db_abc)) = Some 2
   \<and> last (general_log (snd (RecordDown ''003_tags'' db_abc))) = AlterAutoIncrement 2
   \<and> counter_of (snd (RecordDown ''003_tags'' db_abc)) = Some 3"
  by (simp add: RecordDown_def statusID_def Get_def Exec_def next_fault_def after_call_def
      Let_def Entity_zero_def db_abc_def max_id_def counter_of_def latest_id_of_def
      word_le_nat_alt)

subsection \<open>Identifiers after a rollback\<close>

text \<open>
  Claim C2, as it holds. On an empty tracking table whose counter is \<open>c\<close> (with room
  for three identifiers), behind a connection that lets the ten calls through:
  after \<open>RecordUp\<close> of \<open>A\<close>, \<open>B\<close>, \<open>C\<close> and \<open>RecordDown\<close> of \<open>C\<close>, then
  \<open>B\<close>, every call having returned no error, the next \<open>RecordUp\<close> of a name
  \<open>D\<close> other than \<open>A\<close> gives \<open>D\<close> the identifier of \<open>A\<close> plus one. No gap is left,
  and that identifier is the one \<open>B\<close> held before its rollback; the identifier \<open>C\<close>
  held is not used.
\<close>

theorem renumbering_after_rollback:
  assumes t0: "tracking d = Some \<lparr>rows = [], auto_increment = c\<rparr>"
    and c: "c + 2 < 2 ^ 32"
    and h: "healthy 10 d"
    and names: "A \<noteq> B" "A \<noteq> C" "B \<noteq> C" "D \<noteq> A"
  shows "let d1 = snd (RecordUp A d); d2 = snd (RecordUp B d1); d3 = snd (RecordUp C d2);
             d4 = snd (RecordDown C d3); d5 = snd (RecordDown B d4);
             d6 = snd (RecordUp D d5)
         in fst (RecordUp A d) = None \<and> fst (RecordUp B d1) = None
          \<and> fst (RecordUp C d2) = None \<and> fst (RecordDown C d3) = None
          \<and> fst (RecordDown B d4) = None \<and> fst (RecordUp D d5) = None
          \<and> id_of A d3 = Some (word_of_nat c)
          \<and> id_of B d3 = Some (word_of_nat c + 1)
          \<and> id_of C d3 = Some (word_of_nat c + 2)
          \<and> id_of A d6 = Some (word_of_nat c)
          \<and> id_of D d6 = Some (word_of_nat c + 1)
          \<and> id_of D d6 = id_of B d3
          \<and> id_of D d6 \<noteq> id_of C d3"
proof -
  let ?n = "now d"
  let ?rA = "\<lparr>row_id = word_of_nat c, row_name = A, row_created_at = ?n\<rparr>"
  let ?rB = "\<lparr>row_id = word_of_nat (Suc c), row_name = B, row_created_at = ?n\<rparr>"
  let ?rC = "\<lparr>row_id = word_of_nat (Suc (Suc c)), row_name = C, row_created_at = ?n\<rparr>"
  let ?rD = "\<lparr>row_id = word_of_nat (Suc c), row_name = D, row_created_at = ?n\<rparr>"
  let ?d1 = "snd (RecordUp A d)"
  let ?d2 = "snd (RecordUp B ?d1)"
  let ?d3 = "snd (RecordUp C ?d2)"
  let ?d4 = "snd (RecordDown C ?d3)"
  let ?d5 = "snd (RecordDown B ?d4)"
  let ?d6 = "snd (RecordUp D ?d5)"
  have c0: "c < 2 ^ 32" and c1: "Suc c < 2 ^ 32" and c2: "Suc (Suc c) < 2 ^ 32"
    using c by simp_all
  have u0: "unat (word_of_nat c :: 32 word) = c" using c0 by (rule unat_word_of_nat_32)
  have u1: "unat (word_of_nat (Suc c) :: 32 word) = Suc c" using c1 by (rule unat_word_of_nat_32)
  have u2: "unat (word_of_nat (Suc (Suc c)) :: 32 word) = Suc (Suc c)"
    using c2 by (rule unat_word_of_nat_32)
  have ne01: "(word_of_nat c :: 32 word) \<noteq> word_of_nat (Suc c)"
    using word_of_nat_eq_32 [OF c0 c1] by simp
  have ne02: "(word_of_nat c :: 32 word) \<noteq> word_of_nat (Suc (Suc c))"
    using word_of_nat_eq_32 [OF c0 c2] by simp
  have ne12: "(word_of_nat (Suc c) :: 32 word) \<noteq> word_of_nat (Suc (Suc c))"
    using word_of_nat_eq_32 [OF c1 c2] by simp
  have le01: "(word_of_nat c :: 32 word) \<le> word_of_nat (Suc c)"
    unfolding word_le_nat_alt u0 u1 by simp
  have h10: "healthy (Suc 9) d" using h by simp
  note s1 = RecordUp_healthy [OF h10, of A]
  have e1: "fst (RecordUp A d) = None"
    and t1: "tracking ?d1 = Some \<lparr>rows = [?rA], auto_increment = Suc c\<rparr>"
    using c0 by (simp_all add: s1 t0 Let_def)
  have h9: "healthy (Suc 8) ?d1" using s1(4) by simp
  note s2 = RecordUp_healthy [OF h9, of B]
  have e2: "fst (RecordUp B ?d1) = None"
    and t2: "tracking ?d2 = Some \<lparr>rows = [?rA, ?rB], auto_increment = Suc (Suc c)\<rparr>"
    using c1 names ne01 by (simp_all add: s2 s1(3) t1 Let_def del: of_nat_Suc)
  have h8: "healthy (Suc 7) ?d2" using s2(4) by simp
  note s3 = RecordUp_healthy [OF h8, of C]
  have e3: "fst (RecordUp C ?d2) = None"
    and t3: "tracking ?d3 = Some \<lparr>rows = [?rA, ?rB, ?rC], auto_increment = Suc (Suc (Suc c))\<rparr>"
    using c2 names ne02 ne12 by (simp_all add: s3 s2(3) s1(3) t2 Let_def del: of_nat_Suc)
  have h7: "healthy (3 + 4) ?d3" using s3(4) by simp
  note s4 = RecordDown_healthy_proj [OF t3 h7, of C]
  have e4: "fst (RecordDown C ?d3) = None" by (rule s4(1))
  have t4: "tracking ?d4 = Some \<lparr>rows = [?rA, ?rB], auto_increment = Suc (Suc c)\<rparr>"
    using names le01 by (simp add: s4(2) nextID_of_def max_id_def u0 u1 del: of_nat_Suc)
  have h4: "healthy (3 + 1) ?d4" using s4(4) by simp
  note s5 = RecordDown_healthy_proj [OF t4 h4, of B]
  have e5: "fst (RecordDown B ?d4) = None" by (rule s5(1))
  have t5: "tracking ?d5 = Some \<lparr>rows = [?rA], auto_increment = Suc c\<rparr>"
    using names by (simp add: s5(2) nextID_of_def max_id_def u0 del: of_nat_Suc)
  have h1: "healthy (Suc 0) ?d5" using s5(4) by simp
  note s6 = RecordUp_healthy [OF h1, of D]
  have n5: "now ?d5 = ?n" by (simp add: s5(3) s4(3) s3(3) s2(3) s1(3))
  have e6: "fst (RecordUp D ?d5) = None"
    and t6: "tracking ?d6 = Some \<lparr>rows = [?rA, ?rD], auto_increment = Suc (Suc c)\<rparr>"
    using c1 names ne01 by (simp_all add: s6 n5 t5 Let_def del: of_nat_Suc)
  have i3: "id_of A ?d3 = Some (word_of_nat c)" "id_of B ?d3 = Some (word_of_nat c + 1)"
    "id_of C ?d3 = Some (word_of_nat c + 2)"
    using names by (simp_all add: id_of_def t3)
  have i6: "id_of A ?d6 = Some (word_of_nat c)" "id_of D ?d6 = Some (word_of_nat c + 1)"
    using names by (simp_all add: id_of_def t6)
  have neq: "(word_of_nat c + 1 :: 32 word) \<noteq> word_of_nat c + 2" by simp
  show ?thesis
    unfolding Let_def using e1 e2 e3 e4 e5 e6 i3 i6 neq by simp
qed

theorem renumbering_after_rollback_witness:
  "tracking db_empty = Some \<lparr>rows = [], auto_increment = 1\<rparr>
   \<and> healthy 10 db_empty
   \<and> id_of ''001_users'' applied_next = Some 1
   \<and> id_of ''004_likes'' applied_next = Some (1 + 1)"
proof -
  have t: "tracking db_empty = Some \<lparr>rows = [], auto_increment = 1\<rparr>"
    by (simp add: db_empty_def)
  have h: "healthy 10 db_empty" by (simp add: db_empty_def healthy_def)
  have c: "(1::nat) + 2 < 2 ^ 32" by simp
  show ?thesis
    using t h renumbering_after_rollback [OF t c h, of "''001_users''" "''002_posts''" "''003_tags''" "''004_likes''"]
    by (simp add: Let_def applied_next_def rolled_back_two_def applied_three_def)
qed

text \<open>
  Claim C2 as stated adds that the new identifier is not one that \<open>B\<close> or \<open>C\<close> used
  before. On the new table \<open>002_posts\<close> receives 2, is rolled back, and
  \<open>004_likes\<close> receives 2 again.
\<close>

theorem rollback_reuses_identifier_counterexample:
  "id_of ''002_posts'' applied_three = Some 2
   \<and> id_of ''002_posts'' rolled_back_two = None
   \<and> id_of ''004_likes'' applied_next = Some 2"
  by (simp add: applied_three_eq rolled_back_two_eq applied_next_eq id_of_def)

subsection \<open>Status\<close>

text \<open>
  Claim C3. When the tracking table exists and the query reaches the server:
  without any row the lookup ends in \<open>sql.ErrNoRows\<close> (as \<open>statusID\<close> shows), and
  \<open>Status\<close> returns the empty name with a nil error; with rows that were applied in
  order, \<open>Status\<close> returns the name of the row applied last, with a nil error.
\<close>

theorem Status_absorbs_not_found:
  assumes "tracking d = Some t" and "next_fault d = None"
  shows "(rows t = [] \<longrightarrow>
            fst (statusID d) = (0, Some ErrNoRows) \<and> fst (Status d) = ([], None))
       \<and> (rows t \<noteq> [] \<and> applied_in_order t \<longrightarrow>
            fst (Status d) = (row_name (last (rows t)), None))"
  using assms
  by (simp add: Status_healthy statusID_healthy latest_sorted applied_in_order_def)

theorem Status_absorbs_not_found_witness:
  "fst (statusID db_empty) = (0, Some ErrNoRows)
   \<and> fst (Status db_empty) = ([], None)
   \<and> fst (Status db_abc) = (''003_tags'', None)"
proof -
  have e: "tracking db_empty = Some \<lparr>rows = [], auto_increment = 1\<rparr>"
    and ne: "next_fault db_empty = None"
    by (simp_all add: db_empty_def next_fault_def)
  have a: "tracking db_abc = Some \<lparr>rows =
       [\<lparr>row_id = 1, row_name = ''001_users'', row_created_at = 10\<rparr>,
        \<lparr>row_id = 2, row_name = ''002_posts'', row_created_at = 11\<rparr>,
        \<lparr>row_id = 3, row_name = ''003_tags'', row_created_at = 12\<rparr>],
       auto_increment = 4\<rparr>"
    and na: "next_fault db_abc = None"
    by (simp_all add: db_abc_def next_fault_def)
  show ?thesis
    using Status_absorbs_not_found [OF e ne] Status_absorbs_not_found [OF a na]
    by (simp add: applied_in_order_def word_less_nat_alt)
qed

subsection \<open>TableExist\<close>

text \<open>
  Claim C4. \<open>TableExist\<close> returns the error of its probe unchanged. When the probe
  reaches the server and the tracking table is absent, that is the server's error 1146
  (no such table); \<open>TableExist\<close> returns this error in no other state: with the table
  present it returns nil, and a failure of the connection is returned as the driver's
  error. The table itself is left as it was.
\<close>

theorem TableExist_not_found_is_distinct:
  "(next_fault d = None \<and> tracking d = None \<longrightarrow>
       fst (TableExist d) = Some (MySQLError ER_NO_SUCH_TABLE))
   \<and> (fst (TableExist d) = Some (MySQLError ER_NO_SUCH_TABLE) \<longrightarrow>
       next_fault d = None \<and> tracking d = None)
   \<and> (next_fault d = None \<and> tracking d \<noteq> None \<longrightarrow> fst (TableExist d) = None)
   \<and> (next_fault d = Some m \<longrightarrow> fst (TableExist d) = Some (DriverError m))
   \<and> fst (TableExist d) = fst (Exec SelectOne d)
   \<and> tracking (snd (TableExist d)) = tracking d"
  by (cases "next_fault d"; cases "tracking d")
     (auto simp: TableExist_def Exec_def split_beta after_call_def)

theorem TableExist_not_found_is_distinct_witness:
  "fst (TableExist db_absent) = Some (MySQLError ER_NO_SUCH_TABLE)
   \<and> fst (TableExist db_abc) = None
   \<and> fst (TableExist db_unreachable) = Some (DriverError ''invalid connection'')"
  using TableExist_not_found_is_distinct [of db_absent "''invalid connection''"]
    TableExist_not_found_is_distinct [of db_abc "''invalid connection''"]
    TableExist_not_found_is_distinct [of db_unreachable "''invalid connection''"]
  by (simp add: db_absent_def db_abc_def db_unreachable_def next_fault_def)

subsection \<open>Configuration.New\<close>

text \<open>
  Claim C5, as it holds. When the first connection (with the database selected) fails,
  \<open>New\<close> closes it and goes through the recovery once: it connects without a
  database, creates the database, closes, and connects with the database again. The
  first of these three steps that fails (the connection without a database, the
  \<open>CREATE DATABASE\<close>, the reconnect) ends \<open>New\<close>: its error is returned with a nil
  session and nothing more is called. When all succeed, \<open>migration.New\<close> is called
  and its result returned. \<open>New\<close> opens three connections at most. What the two
  \<open>Close\<close> calls return has no part in the result.
\<close>

theorem New_one_recovery_cycle:
  assumes "next_result (connect_results w) = Some e0"
  shows "let i = UpdateConfig (Info c); h = opened w;
             e1 = next_result (tl (connect_results w));
             ec = next_result (create_results w);
             e2 = next_result (tl (tl (connect_results w)));
             r = New fp c w
         in (e1 \<noteq> None \<longrightarrow>
               fst r = (None, e1) \<and> calls (snd r) = calls w @ take 3 (recovery_cycle i h))
          \<and> (e1 = None \<and> ec \<noteq> None \<longrightarrow>
               fst r = (None, ec) \<and> calls (snd r) = calls w @ take 4 (recovery_cycle i h))
          \<and> (e1 = None \<and> ec = None \<and> e2 \<noteq> None \<longrightarrow>
               fst r = (None, e2) \<and> calls (snd r) = calls w @ recovery_cycle i h)
          \<and> (e1 = None \<and> ec = None \<and> e2 = None \<longrightarrow>
               fst r = fst (migration_New (Entity_zero\<lparr>sql := Some (h + 2)\<rparr>)
                              (resolved_folder fp c w) w)
               \<and> calls (snd r) = calls w @ recovery_cycle i h @
                    [CallMigrationNew (Entity_zero\<lparr>sql := Some (h + 2)\<rparr>)
                       (resolved_folder fp c w)])
          \<and> connect_count (calls (snd r)) \<le> connect_count (calls w) + 3
          \<and> fst (New fp c (w\<lparr>close_results := cr\<rparr>)) = fst r"
proof -
  have a: "next_result (connect_results (w\<lparr>close_results := cr\<rparr>)) = Some e0"
    using assms by simp
  show ?thesis
    unfolding Let_def New_recovery [OF assms] New_recovery(1) [OF a]
    by (auto simp: recovery_cycle_def connect_count_def migration_New_def numeral_3_eq_3
        resolved_folder_def Getenv_def Getwd_def file_Exists_def Let_def split: option.splits)
qed

theorem New_one_recovery_cycle_witness:
  "next_result (connect_results world_no_database) = Some (MySQLError 1049)
   \<and> fst (New unix_filepath cfg world_no_database) =
        (None, Some (DriverError ''invalid connection''))
   \<and> calls (snd (New unix_filepath cfg world_no_database)) =
        recovery_cycle (UpdateConfig (Info cfg)) 0"
proof -
  have f: "next_result (connect_results world_no_database) = Some (MySQLError 1049)"
    by (simp add: world_no_database_def next_result_def)
  show ?thesis
    using f New_one_recovery_cycle [OF f, of cfg unix_filepath]
    by (simp add: Let_def world_no_database_def world_ready_def next_result_def)
qed

text \<open>
  Claim C5 as stated has the failure of any step of the cycle returned, the close among
  them. Here the close inside the cycle fails, and \<open>New\<close> returns the session and no
  error.
\<close>

theorem New_drops_close_error_counterexample:
  "close_results world_close_fails = [None, Some (DriverError ''broken pipe'')]
   \<and> fst (New unix_filepath cfg world_close_fails) =
        (Some \<lparr>DB = Entity_zero\<lparr>sql := Some 2\<rparr>, Folder = ''/srv/app/migration/mysql''\<rparr>,
         None)
   \<and> calls (snd (New unix_filepath cfg world_close_fails)) =
        recovery_cycle (UpdateConfig (Info cfg)) 0 @
        [CallMigrationNew (Entity_zero\<lparr>sql := Some 2\<rparr>) ''/srv/app/migration/mysql'']"
proof -
  have f: "next_result (connect_results world_close_fails) = Some (MySQLError 1049)"
    by (simp add: world_close_fails_def next_result_def)
  show ?thesis
    by (simp add: New_recovery [OF f])
       (simp add: world_close_fails_def world_ready_def next_result_def recovery_cycle_def
          resolved_folder_def cfg_def file_Exists_def Getenv_def Getwd_def Let_def
          unix_filepath_def unix_Dir_env unix_Join_root)
qed

subsection \<open>The stored configuration\<close>

text \<open>
  Claim C6. For every configuration \<open>i\<close> and every store: \<open>Config\<close> after
  \<open>SetConfig i\<close> yields exactly \<open>i\<close> (and so does \<open>Shared\<close>); \<open>Config\<close> after
  \<open>ResetConfig\<close> yields the empty configuration; and the struct a caller receives
  from \<open>Config\<close> is a copy held in the caller's own variable, so whatever is written
  through a pointer to it (\<open>UpdateConfig\<close>, or any other change \<open>f\<close>) leaves the
  stored configuration as it was.
\<close>

theorem Config_returns_stored_copy:
  "Config (SetConfig i \<sigma>) = i
   \<and> Config (ResetConfig \<sigma>) = Info_zero
   \<and> Info (Shared (SetConfig i \<sigma>)) = i
   \<and> assign_Config x \<sigma> (Local x) = Config \<sigma>
   \<and> Config (write_through (Local x) f (assign_Config x \<sigma>)) = Config \<sigma>
   \<and> Config (write_through (Local x) UpdateConfig (assign_Config x (SetConfig i \<sigma>))) = i"
  by (simp add: Config_def SetConfig_def ResetConfig_def Shared_def assign_Config_def
      write_through_def)

subsection \<open>The migration folder\<close>

text \<open>
  Claim C7. The folder that \<open>New\<close> hands to \<open>migration.New\<close>, on every path that
  reaches it, and the folder of every session \<open>New\<close> returns, is the configured
  migration-folder path joined to the directory of the path in the environment variable
  \<open>JAYCONFIG\<close> when that joined folder exists, and the configured path joined to the
  current working directory when it does not.
\<close>

theorem New_resolves_migration_folder:
  "(\<forall>mi f. CallMigrationNew mi f \<in> set (drop (length (calls w)) (calls (snd (New fp c w))))
        \<longrightarrow> f = resolved_folder fp c w)
   \<and> (\<forall>m. fst (fst (New fp c w)) = Some m \<longrightarrow> Folder m = resolved_folder fp c w)
   \<and> (next_result (connect_results w) = None \<and> next_result (new_results w) = None \<longrightarrow>
        fst (New fp c w) = (Some \<lparr>DB = Entity_zero\<lparr>sql := Some (opened w)\<rparr>,
                                   Folder = resolved_folder fp c w\<rparr>, None))
   \<and> resolved_folder fp c w =
        (if file_Exists w (Join fp (Dir fp (Getenv w ''JAYCONFIG'')) (MigrationFolder (Info c)))
         then Join fp (Dir fp (Getenv w ''JAYCONFIG'')) (MigrationFolder (Info c))
         else Join fp (Getwd w) (MigrationFolder (Info c)))"
proof (cases "next_result (connect_results w)")
  case None
  show ?thesis
    by (auto simp: New_direct [OF None] resolved_folder_def Let_def split: option.splits)
next
  case (Some e0)
  show ?thesis
    by (auto simp: New_recovery [OF Some] Some resolved_folder_def Let_def split: option.splits)
qed

theorem New_resolves_migration_folder_witness:
  "fst (New unix_filepath cfg world_ready) =
     (Some \<lparr>DB = Entity_zero\<lparr>sql := Some 0\<rparr>, Folder = ''/srv/app/migration/mysql''\<rparr>, None)
   \<and> fst (New unix_filepath cfg world_elsewhere) =
     (Some \<lparr>DB = Entity_zero\<lparr>sql := Some 0\<rparr>, Folder = ''/home/dev/migration/mysql''\<rparr>, None)"
proof -
  show ?thesis
    using New_resolves_migration_folder [of world_ready unix_filepath cfg]
      New_resolves_migration_folder [of world_elsewhere unix_filepath cfg]
    by (simp add: world_ready_def world_elsewhere_def cfg_def next_result_def file_Exists_def
        Getenv_def Getwd_def unix_filepath_def unix_Dir_env unix_Join_root unix_Join_wd)
qed

subsection \<open>RecordDown after a failed lookup\<close>

text \<open>
  Claim C8. If the \<open>DELETE\<close> of \<open>RecordDown\<close> succeeds and the lookup of the latest
  remaining row then fails with an error other than \<open>sql.ErrNoRows\<close>, \<open>RecordDown\<close>
  returns that error and stops: the state is the one the lookup left, no
  \<open>ALTER TABLE\<close> has been sent, and the counter of the table is the one from before
  the call.
\<close>

theorem RecordDown_lookup_error_skips_renumbering:
  assumes del: "Exec (DeleteName name) d = (None, d1)"
    and look: "statusID d1 = ((lastID, Some e), d2)"
    and other: "e \<noteq> ErrNoRows"
  shows "RecordDown name d = (Some e, d2)
     \<and> map_option auto_increment (tracking d2) = map_option auto_increment (tracking d)
     \<and> tracking d2 = tracking d1
     \<and> count_alter (general_log d2) = count_alter (general_log d)"
proof -
  have rd: "RecordDown name d = (Some e, d2)"
    using del look other by (simp add: RecordDown_def)
  have nf: "next_fault d = None" using del by (rule Exec_ok_table)
  have d1: "d1 = (after_call d)\<lparr>tracking := snd (run (DeleteName name) (now d) (tracking d)),
                              general_log := general_log d @ [DeleteName name]\<rparr>"
    and r1: "fst (run (DeleteName name) (now d) (tracking d)) = None"
    using del nf by (simp_all add: Exec_def split_beta)
  obtain t where t: "tracking d = Some t"
    and t1: "tracking d1 = Some (t\<lparr>rows := delete_name name (rows t)\<rparr>)"
    using r1 d1 by (cases "tracking d") auto
  have d2: "d2 = snd (Get Entity_zero SelectLatest d1)"
    using look by (simp add: statusID_def split_beta)
  have tr: "tracking d2 = tracking d1" by (simp add: d2)
  have l1: "general_log d1 = general_log d @ [DeleteName name]"
    by (simp add: d1)
  have l2: "general_log d2 = general_log d1 \<or> general_log d2 = general_log d1 @ [SelectLatest]"
    unfolding d2 by (rule Get_log)
  have lg: "count_alter (general_log d2) = count_alter (general_log d)"
    using l2 by (auto simp: l1 count_alter_def)
  show ?thesis using rd tr lg t t1 by simp
qed

theorem RecordDown_lookup_error_skips_renumbering_witness:
  "RecordDown ''003_tags'' db_lost =
     (Some (DriverError ''invalid connection''),
      \<lparr>tracking = Some \<lparr>rows =
         [\<lparr>row_id = 1, row_name = ''001_users'', row_created_at = 10\<rparr>,
          \<lparr>row_id = 2, row_name = ''002_posts'', row_created_at = 11\<rparr>],
         auto_increment = 4\<rparr>,
       now = 20, general_log = [DeleteName ''003_tags''], faults = []\<rparr>)"
proof -
  let ?d1 = "\<lparr>tracking = Some \<lparr>rows =
         [\<lparr>row_id = 1, row_name = ''001_users'', row_created_at = 10\<rparr>,
          \<lparr>row_id = 2, row_name = ''002_posts'', row_created_at = 11\<rparr>],
         auto_increment = 4\<rparr>,
       now = 20, general_log = [DeleteName ''003_tags''],
       faults = [Some ''invalid connection'']\<rparr>"
  have del: "Exec (DeleteName ''003_tags'') db_lost = (None, ?d1)"
    by (simp add: Exec_def db_lost_def db_abc_def next_fault_def after_call_def)
  have look: "statusID ?d1 = ((0, Some (DriverError ''invalid connection'')),
       ?d1\<lparr>faults := []\<rparr>)"
    by (simp add: statusID_def Get_def next_fault_def after_call_def Entity_zero_def)
  show ?thesis
    using RecordDown_lookup_error_skips_renumbering [OF del look] by simp
qed

subsection \<open>UpdateConfig\<close>

text \<open>
  Claim C9. For every configuration, \<open>UpdateConfig\<close> sets the dialect-parameter field
  to the fixed string \<open>parseTime=true&multiStatements=true\<close>, whatever it held before,
  and every other field of the configuration (also any field beyond the ones modelled
  here) keeps its value.
\<close>

theorem UpdateConfig_overwrites_Parameter_only:
  "Parameter (UpdateConfig config) = ''parseTime=true&multiStatements=true''
   \<and> Username (UpdateConfig config) = Username config
   \<and> Password (UpdateConfig config) = Password config
   \<and> Database (UpdateConfig config) = Database config
   \<and> Hostname (UpdateConfig config) = Hostname config
   \<and> MigrationFolder (UpdateConfig config) = MigrationFolder config
   \<and> database_Info.more (UpdateConfig config) = database_Info.more config
   \<and> UpdateConfig (config\<lparr>Parameter := p\<rparr>) = UpdateConfig config"
  by (simp add: UpdateConfig_def)

subsection \<open>What the latest row is\<close>

text \<open>
  Claim C10. On a table with rows, \<open>Status\<close> and \<open>statusID\<close> return the name and
  the identifier of one and the same row, a row whose identifier no other row exceeds
  (\<open>ORDER BY id DESC LIMIT 1\<close>). The \<open>created_at\<close> values have no part in it:
  with any other timestamps in the rows both functions return the same.
\<close>

theorem Status_latest_is_largest_id:
  assumes "tracking d = Some t" and "next_fault d = None" and "rows t \<noteq> []"
  shows "(\<exists>r \<in> set (rows t). list_all (\<lambda>r'. row_id r' \<le> row_id r) (rows t)
            \<and> fst (Status d) = (row_name r, None)
            \<and> fst (statusID d) = (row_id r, None))
       \<and> fst (Status (retimed f d)) = fst (Status d)
       \<and> fst (statusID (retimed f d)) = fst (statusID d)"
proof -
  obtain r where l: "latest (rows t) = Some r"
    using assms(3) latest_None [of "rows t"] by (cases "latest (rows t)") auto
  have 1: "r \<in> set (rows t)" using l by (rule latest_in)
  have 2: "list_all (\<lambda>r'. row_id r' \<le> row_id r) (rows t)"
    using latest_max [OF l] by (simp add: list_all_iff)
  have 3: "fst (Status d) = (row_name r, None)"
    using assms(1,2) l by (simp add: Status_healthy)
  have 4: "fst (statusID d) = (row_id r, None)"
    using assms(1,2) l by (simp add: statusID_healthy)
  have t': "tracking (retimed f d) =
      Some (t\<lparr>rows := map (\<lambda>r. r\<lparr>row_created_at := f r\<rparr>) (rows t)\<rparr>)"
    and n': "next_fault (retimed f d) = None"
    using assms(1,2) by (simp_all add: retimed_def)
  have 5: "fst (Status (retimed f d)) = (row_name r, None)"
    using l by (simp add: Status_healthy [OF t' n'] latest_retimed)
  have 6: "fst (statusID (retimed f d)) = (row_id r, None)"
    using l by (simp add: statusID_healthy [OF t' n'] latest_retimed)
  show ?thesis using 1 2 3 4 5 6 by auto
qed

theorem Status_latest_is_largest_id_witness:
  "fst (Status db_skewed) = (''002_posts'', None)
   \<and> fst (statusID db_skewed) = (2, None)
   \<and> map_option row_name (newest (rows (the (tracking db_skewed)))) = Some ''001_users''"
proof -
  have a: "tracking db_skewed = Some \<lparr>rows =
       [\<lparr>row_id = 1, row_name = ''001_users'', row_created_at = 50\<rparr>,
        \<lparr>row_id = 2, row_name = ''002_posts'', row_created_at = 40\<rparr>],
       auto_increment = 3\<rparr>"
    and na: "next_fault db_skewed = None"
    by (simp_all add: db_skewed_def next_fault_def)
  have "fst (Status db_skewed) = (''002_posts'', None) \<and> fst (statusID db_skewed) = (2, None)"
    using Status_latest_is_largest_id [OF a na, where f = "\<lambda>r. 0"]
    by (auto simp: word_le_nat_alt)
  then show ?thesis by (simp add: a)
qed

end
